theory Spec2Isabelle
  imports Complex_Main
begin

section \<open>The product catalog of DB3.js\<close>

text \<open>
  DB3.js declares a Mongoose schema for products with embedded variants, seeds a sample
  catalog, and runs queries against it. The queries are filter documents and
  aggregation pipelines handed to the database, so the embedding has two layers: the
  documents (records) and the meaning of the filter documents, update documents and
  pipeline stages the source writes, as the database documents them.

  A JavaScript Number is a double; the embedding holds it as the rational it denotes,
  and compares such values exactly, as the comparison of doubles does. Arithmetic on
  doubles rounds, so it is not written with the operations of the rationals: the
  addition of JavaScript and the accumulators \<open>$sum\<close> and \<open>$avg\<close> of the database
  are parameters of the definitions that use them. A character is a code unit below
  256.
\<close>

subsection \<open>Stored documents\<close>

text \<open>
  \<^verbatim>\<open>variantSchema\<close> (lines 16-48). \<open>{ _id: true }\<close> gives every embedded variant an
  identifier of its own, here \<open>variant_id\<close>. The field \<open>size\<close> is \<open>size'\<close>.
\<close>

record variant =
  variant_id :: nat
  color :: string
  size' :: string
  stock :: rat
  sku :: string
  priceModifier :: rat
  images :: "string list"

text \<open>The nested path \<^verbatim>\<open>rating: { average, count }\<close> (lines 89-100).\<close>

record rating =
  average :: rat
  count :: rat

text \<open>
  \<^verbatim>\<open>productSchema\<close> (lines 50-103). \<open>doc_id\<close> is the document's \<open>_id\<close>;
  \<open>createdAt\<close> and \<open>updatedAt\<close> come from \<open>timestamps: true\<close>.
\<close>

record product =
  doc_id :: nat
  name :: string
  description :: string
  basePrice :: rat
  category :: string
  brand :: string
  tags :: "string list"
  variants :: "variant list"
  isActive :: bool
  rating :: rating
  createdAt :: nat
  updatedAt :: nat

text \<open>The collection: its documents in insertion order, and the next unused identifier.\<close>

record db =
  docs :: "product list"
  nextId :: nat

definition emptyDb :: db where
  "emptyDb = \<lparr>docs = [], nextId = 0\<rparr>"

text \<open>\<^verbatim>\<open>Product.deleteMany({})\<close> (line 140): every document goes.\<close>

definition deleteMany :: "db \<Rightarrow> db" where
  "deleteMany d = d\<lparr>docs := []\<rparr>"

subsection \<open>Filter documents\<close>

text \<open>
  The values a filter compares, and the conditions the source's filters use: a plain
  value (equality), \<open>$lte\<close>, \<open>$gt\<close>, and a regular expression literal with the \<open>i\<close>
  flag whose pattern has no metacharacter (\<open>/black/i\<close>).
\<close>

datatype bson = Str string | Num rat | Bool bool

datatype cond = Eq bson | Lte rat | Gt rat | RegexI string

type_synonym filter_doc = "(string \<times> cond) list"

text \<open>
  The values a dotted path reaches in a product. A path through the \<open>variants\<close> array
  reaches the field of every element.
\<close>

definition values_at :: "string \<Rightarrow> product \<Rightarrow> bson list" where
  "values_at path p =
     (if path = ''name'' then [Str (name p)]
      else if path = ''description'' then [Str (description p)]
      else if path = ''basePrice'' then [Num (basePrice p)]
      else if path = ''category'' then [Str (category p)]
      else if path = ''brand'' then [Str (brand p)]
      else if path = ''tags'' then map Str (tags p)
      else if path = ''isActive'' then [Bool (isActive p)]
      else if path = ''variants.color'' then map (\<lambda>v. Str (color v)) (variants p)
      else if path = ''variants.size'' then map (\<lambda>v. Str (size' v)) (variants p)
      else if path = ''variants.stock'' then map (\<lambda>v. Num (stock v)) (variants p)
      else if path = ''variants.sku'' then map (\<lambda>v. Str (sku v)) (variants p)
      else if path = ''variants.priceModifier'' then map (\<lambda>v. Num (priceModifier v)) (variants p)
      else [])"

text \<open>Case folding of the \<open>i\<close> flag on ASCII letters, and the substring test.\<close>

definition lower :: "char \<Rightarrow> char" where
  "lower c = (let n = (of_char c :: nat) in if 65 \<le> n \<and> n \<le> 90 then char_of (n + 32) else c)"

fun starts_with :: "string \<Rightarrow> string \<Rightarrow> bool" where
  "starts_with [] s = True"
| "starts_with (c # cs) [] = False"
| "starts_with (c # cs) (x # xs) = (c = x \<and> starts_with cs xs)"

fun includes_str :: "string \<Rightarrow> string \<Rightarrow> bool" where
  "includes_str pat [] = (pat = [])"
| "includes_str pat (x # xs) = (starts_with pat (x # xs) \<or> includes_str pat xs)"

text \<open>
  One condition on one value. A comparison operator only matches a value of its own
  type (a number here).
\<close>

fun sat :: "cond \<Rightarrow> bson \<Rightarrow> bool" where
  "sat (Eq v) x = (x = v)"
| "sat (Lte t) (Num n) = (n \<le> t)"
| "sat (Lte t) x = False"
| "sat (Gt t) (Num n) = (t < n)"
| "sat (Gt t) x = False"
| "sat (RegexI pat) (Str s) = includes_str (map lower pat) (map lower s)"
| "sat (RegexI pat) x = False"

text \<open>
  A filter document is the conjunction of its entries; an entry holds when some value
  its path reaches satisfies the condition. Entries are judged one by one, each over
  the whole array.
\<close>

definition matches :: "filter_doc \<Rightarrow> product \<Rightarrow> bool" where
  "matches f p = list_all (\<lambda>(path, c). list_ex (sat c) (values_at path p)) f"

text \<open>\<^verbatim>\<open>Product.find(filter)\<close>.\<close>

definition find_docs :: "filter_doc \<Rightarrow> db \<Rightarrow> product list" where
  "find_docs f d = filter (matches f) (docs d)"

subsection \<open>The statics of the schema\<close>

text \<open>
  \<^verbatim>\<open>findByCategory\<close> (lines 121-123):
  \<^verbatim>\<open>return this.find({ category, isActive: true });\<close>
\<close>

definition findByCategory :: "string \<Rightarrow> db \<Rightarrow> product list" where
  "findByCategory c d = find_docs [(''category'', Eq (Str c)), (''isActive'', Eq (Bool True))] d"

text \<open>
  \<^verbatim>\<open>findLowStock\<close> (lines 126-131), with the default parameter \<open>threshold = 5\<close>: the
  argument is \<open>None\<close> when the caller leaves it out.
  \<^verbatim>\<open>return this.find({ 'variants.stock': { $lte: threshold }, isActive: true });\<close>
\<close>

definition findLowStock :: "rat option \<Rightarrow> db \<Rightarrow> product list" where
  "findLowStock threshold d =
     (let t = (case threshold of None \<Rightarrow> 5 | Some x \<Rightarrow> x)
      in find_docs [(''variants.stock'', Lte t), (''isActive'', Eq (Bool True))] d)"

subsection \<open>Documents as submitted, and the schema's validators\<close>

text \<open>
  A document handed to \<^verbatim>\<open>insertMany\<close> may leave any field out; arrays left out are
  empty. Values are taken to have the declared type already.
\<close>

record variantDoc =
  in_color :: "string option"
  in_size :: "string option"
  in_stock :: "rat option"
  in_sku :: "string option"
  in_priceModifier :: "rat option"
  in_images :: "string list"

record productDoc =
  in_name :: "string option"
  in_description :: "string option"
  in_basePrice :: "rat option"
  in_category :: "string option"
  in_brand :: "string option"
  in_tags :: "string list"
  in_variants :: "variantDoc list"
  in_isActive :: "bool option"
  in_rating_average :: "rat option"
  in_rating_count :: "rat option"

text \<open>
  \<open>trim: true\<close> applies \<^verbatim>\<open>String.prototype.trim\<close> when the value is set: white space
  and line terminators go at both ends. Below 256 these are the code units 9 to 13
  (tab, line feed, vertical tab, form feed, carriage return), 32 (space) and 160 (no-break
  space).
\<close>

definition is_ws :: "char \<Rightarrow> bool" where
  "is_ws c = (let n = (of_char c :: nat) in n = 32 \<or> (9 \<le> n \<and> n \<le> 13) \<or> n = 160)"

definition trim :: "string \<Rightarrow> string" where
  "trim s = rev (dropWhile is_ws (rev (dropWhile is_ws s)))"

text \<open>
  The validators. \<open>required\<close> rejects a missing value and, for a string, the empty
  string; \<open>min\<close>, \<open>max\<close>, \<open>maxlength\<close> and \<open>enum\<close> accept a missing value.
\<close>

definition required_str :: "string option \<Rightarrow> bool" where
  "required_str x = (case x of None \<Rightarrow> False | Some s \<Rightarrow> s \<noteq> [])"

definition required_num :: "rat option \<Rightarrow> bool" where
  "required_num x = (case x of None \<Rightarrow> False | Some n \<Rightarrow> True)"

definition min_ok :: "rat \<Rightarrow> rat option \<Rightarrow> bool" where
  "min_ok lo x = (case x of None \<Rightarrow> True | Some n \<Rightarrow> lo \<le> n)"

definition max_ok :: "rat \<Rightarrow> rat option \<Rightarrow> bool" where
  "max_ok hi x = (case x of None \<Rightarrow> True | Some n \<Rightarrow> n \<le> hi)"

definition maxlength_ok :: "nat \<Rightarrow> string option \<Rightarrow> bool" where
  "maxlength_ok m x = (case x of None \<Rightarrow> True | Some s \<Rightarrow> length s \<le> m)"

definition categoryEnum :: "string list" where
  "categoryEnum = [''Electronics'', ''Clothing'', ''Books'', ''Home & Kitchen'', ''Sports'',
                   ''Beauty'', ''Toys'']"

definition enum_ok :: "string option \<Rightarrow> bool" where
  "enum_ok x = (case x of None \<Rightarrow> True | Some s \<Rightarrow> s \<in> set categoryEnum)"

text \<open>The path of a field that failed: of the product, or of its \<open>i\<close>-th variant.\<close>

datatype field_path = Top string | InVariant nat string

datatype error = ValidationError "field_path list" | DuplicateKeyError

definition check :: "bool \<Rightarrow> field_path \<Rightarrow> field_path list" where
  "check ok path = (if ok then [] else [path])"

definition validateVariant :: "nat \<Rightarrow> variantDoc \<Rightarrow> field_path list" where
  "validateVariant i v =
     check (required_str (map_option trim (in_color v))) (InVariant i ''color'')
   @ check (required_str (map_option trim (in_size v))) (InVariant i ''size'')
   @ check (required_num (in_stock v) \<and> min_ok 0 (in_stock v)) (InVariant i ''stock'')
   @ check (required_str (map_option trim (in_sku v))) (InVariant i ''sku'')
   @ check (min_ok (- 1000) (in_priceModifier v) \<and> max_ok 1000 (in_priceModifier v))
       (InVariant i ''priceModifier'')"

definition validateProduct :: "productDoc \<Rightarrow> field_path list" where
  "validateProduct p =
     check (required_str (map_option trim (in_name p))
            \<and> maxlength_ok 100 (map_option trim (in_name p))) (Top ''name'')
   @ check (required_str (in_description p) \<and> maxlength_ok 1000 (in_description p))
       (Top ''description'')
   @ check (required_num (in_basePrice p) \<and> min_ok 0 (in_basePrice p)) (Top ''basePrice'')
   @ check (required_str (in_category p) \<and> enum_ok (in_category p)) (Top ''category'')
   @ check (required_str (map_option trim (in_brand p))) (Top ''brand'')
   @ concat (map (\<lambda>(i, v). validateVariant i v) (enumerate 0 (in_variants p)))
   @ check (min_ok 0 (in_rating_average p) \<and> max_ok 5 (in_rating_average p))
       (Top ''rating.average'')"

subsection \<open>Storing a batch\<close>

text \<open>
  The stored form of a submitted document: setters (\<open>trim\<close>) and defaults applied, the
  identifiers \<open>i\<close>, \<open>i + 1\<close>, ... given to the product and its variants, both timestamps
  set to the time of the call. It is built only for a document that passed validation,
  so that a required field is present; the value written here for a missing one is
  never stored.
\<close>

definition str_or_empty :: "string option \<Rightarrow> string" where
  "str_or_empty x = (case x of None \<Rightarrow> [] | Some s \<Rightarrow> s)"

definition num_or :: "rat \<Rightarrow> rat option \<Rightarrow> rat" where
  "num_or dflt x = (case x of None \<Rightarrow> dflt | Some n \<Rightarrow> n)"

definition storedVariant :: "nat \<Rightarrow> variantDoc \<Rightarrow> variant" where
  "storedVariant i v =
     \<lparr>variant_id = i,
      color = trim (str_or_empty (in_color v)),
      size' = trim (str_or_empty (in_size v)),
      stock = num_or 0 (in_stock v),
      sku = trim (str_or_empty (in_sku v)),
      priceModifier = num_or 0 (in_priceModifier v),
      images = map trim (in_images v)\<rparr>"

definition storedProduct :: "nat \<Rightarrow> nat \<Rightarrow> productDoc \<Rightarrow> product" where
  "storedProduct now i p =
     \<lparr>doc_id = i,
      name = trim (str_or_empty (in_name p)),
      description = str_or_empty (in_description p),
      basePrice = num_or 0 (in_basePrice p),
      category = str_or_empty (in_category p),
      brand = trim (str_or_empty (in_brand p)),
      tags = map trim (in_tags p),
      variants = map (\<lambda>(j, v). storedVariant j v) (enumerate (Suc i) (in_variants p)),
      isActive = (case in_isActive p of None \<Rightarrow> True | Some b \<Rightarrow> b),
      rating = \<lparr>average = num_or 0 (in_rating_average p), count = num_or 0 (in_rating_count p)\<rparr>,
      createdAt = now,
      updatedAt = now\<rparr>"

text \<open>
  \<open>unique: true\<close> on \<open>sku\<close> (lines 32-37) declares a unique index on the path
  \<open>variants.sku\<close> of the collection. The index holds one key per array element of a
  document and a single null key for a document whose array is empty; it refuses a
  document one of whose keys another document already holds. Keys repeated inside one
  document do not collide.
\<close>

definition skuKeys :: "product \<Rightarrow> string option list" where
  "skuKeys p = (if variants p = [] then [None] else map (\<lambda>v. Some (sku v)) (variants p))"

definition keyTaken :: "db \<Rightarrow> string option \<Rightarrow> bool" where
  "keyTaken d k = list_ex (\<lambda>q. k \<in> set (skuKeys q)) (docs d)"

definition insertOne :: "nat \<Rightarrow> productDoc \<Rightarrow> db \<Rightarrow> error + product \<times> db" where
  "insertOne now pd d =
     (let p = storedProduct now (nextId d) pd
      in if list_ex (keyTaken d) (skuKeys p) then Inl DuplicateKeyError
         else Inr (p, d\<lparr>docs := docs d @ [p],
                        nextId := nextId d + 1 + length (in_variants pd)\<rparr>))"

text \<open>
  The database inserts a batch in order and stops at the first document it refuses:
  the documents before it stay inserted.
\<close>

fun insertOrdered :: "nat \<Rightarrow> productDoc list \<Rightarrow> db \<Rightarrow> (error + product list) \<times> db" where
  "insertOrdered now [] d = (Inr [], d)"
| "insertOrdered now (pd # pds) d =
     (case insertOne now pd d of
        Inl e \<Rightarrow> (Inl e, d)
      | Inr (p, d') \<Rightarrow>
          (case insertOrdered now pds d' of
             (Inl e, d'') \<Rightarrow> (Inl e, d'')
           | (Inr ps, d'') \<Rightarrow> (Inr (p # ps), d'')))"

text \<open>
  \<^verbatim>\<open>Product.insertMany(docs)\<close> (line 298): every document is validated first, and a
  validation error sends nothing to the database; otherwise the batch is inserted in
  order. The result is the error or the stored documents, with the collection after
  the call.
\<close>

definition insertMany :: "nat \<Rightarrow> productDoc list \<Rightarrow> db \<Rightarrow> (error + product list) \<times> db" where
  "insertMany now pds d =
     (case find (\<lambda>pd. validateProduct pd \<noteq> []) pds of
        Some bad \<Rightarrow> (Inl (ValidationError (validateProduct bad)), d)
      | None \<Rightarrow> insertOrdered now pds d)"

subsection \<open>The sample catalog\<close>

text \<open>
  \<^verbatim>\<open>sampleProducts\<close> (lines 143-296). No sample sets \<open>isActive\<close>; the prices 12.99
  and 299.99 and the ratings are written as fractions.
\<close>

definition iPhone :: productDoc where
  "iPhone =
     \<lparr>in_name = Some ''iPhone 15 Pro'',
      in_description = Some ''Latest iPhone with advanced camera system and A17 Pro chip'',
      in_basePrice = Some (999),
      in_category = Some ''Electronics'',
      in_brand = Some ''Apple'',
      in_tags = [''smartphone'', ''premium'', ''5g''],
      in_variants =
        [\<lparr>in_color = Some ''Titanium Black'', in_size = Some ''128GB'', in_stock = Some 25,
          in_sku = Some ''IP15P-BLK-128'', in_priceModifier = Some 0,
          in_images = [''iphone_black_1.jpg'', ''iphone_black_2.jpg'']\<rparr>,
         \<lparr>in_color = Some ''Titanium White'', in_size = Some ''256GB'', in_stock = Some 15,
          in_sku = Some ''IP15P-WHT-256'', in_priceModifier = Some 100,
          in_images = [''iphone_white_1.jpg'', ''iphone_white_2.jpg'']\<rparr>,
         \<lparr>in_color = Some ''Titanium Blue'', in_size = Some ''512GB'', in_stock = Some 8,
          in_sku = Some ''IP15P-BLU-512'', in_priceModifier = Some 200,
          in_images = [''iphone_blue_1.jpg'', ''iphone_blue_2.jpg'']\<rparr>],
      in_isActive = None,
      in_rating_average = Some (48 / 10),
      in_rating_count = Some 342\<rparr>"

definition nikeAirMax :: productDoc where
  "nikeAirMax =
     \<lparr>in_name = Some ''Nike Air Max 270'',
      in_description = Some ''Comfortable running shoes with Air Max cushioning'',
      in_basePrice = Some (150),
      in_category = Some ''Sports'',
      in_brand = Some ''Nike'',
      in_tags = [''shoes'', ''running'', ''athletic''],
      in_variants =
        [\<lparr>in_color = Some ''Black/White'', in_size = Some ''US 9'', in_stock = Some 45,
          in_sku = Some ''NIKE-AM270-BW-9'', in_priceModifier = Some 0,
          in_images = [''nike_black_1.jpg'']\<rparr>,
         \<lparr>in_color = Some ''Red/Black'', in_size = Some ''US 10'', in_stock = Some 32,
          in_sku = Some ''NIKE-AM270-RB-10'', in_priceModifier = Some 0,
          in_images = [''nike_red_1.jpg'']\<rparr>,
         \<lparr>in_color = Some ''Blue/White'', in_size = Some ''US 11'', in_stock = Some 18,
          in_sku = Some ''NIKE-AM270-BW-11'', in_priceModifier = Some 0,
          in_images = [''nike_blue_1.jpg'']\<rparr>,
         \<lparr>in_color = Some ''Black/White'', in_size = Some ''US 12'', in_stock = Some 0,
          in_sku = Some ''NIKE-AM270-BW-12'', in_priceModifier = Some 0,
          in_images = [''nike_black_1.jpg'']\<rparr>],
      in_isActive = None,
      in_rating_average = Some (45 / 10),
      in_rating_count = Some 189\<rparr>"

definition greatGatsby :: productDoc where
  "greatGatsby =
     \<lparr>in_name = Some ''The Great Gatsby'',
      in_description = Some ''Classic novel by F. Scott Fitzgerald'',
      in_basePrice = Some (1299 / 100),
      in_category = Some ''Books'',
      in_brand = Some ''Penguin Classics'',
      in_tags = [''fiction'', ''classic'', ''literature''],
      in_variants =
        [\<lparr>in_color = Some ''Paperback'', in_size = Some ''Standard'', in_stock = Some 120,
          in_sku = Some ''BOOK-GG-PB-STD'', in_priceModifier = Some 0,
          in_images = [''gatsby_paperback.jpg'']\<rparr>,
         \<lparr>in_color = Some ''Hardcover'', in_size = Some ''Standard'', in_stock = Some 45,
          in_sku = Some ''BOOK-GG-HC-STD'', in_priceModifier = Some 8,
          in_images = [''gatsby_hardcover.jpg'']\<rparr>,
         \<lparr>in_color = Some ''Collector's Edition'', in_size = Some ''Large'', in_stock = Some 15,
          in_sku = Some ''BOOK-GG-CE-LRG'', in_priceModifier = Some 15,
          in_images = [''gatsby_collector.jpg'']\<rparr>],
      in_isActive = None,
      in_rating_average = Some (47 / 10),
      in_rating_count = Some 567\<rparr>"

definition cookwareSet :: productDoc where
  "cookwareSet =
     \<lparr>in_name = Some ''Stainless Steel Cookware Set'',
      in_description = Some ''10-piece stainless steel cookware set for professional cooking'',
      in_basePrice = Some (29999 / 100),
      in_category = Some ''Home & Kitchen'',
      in_brand = Some ''KitchenMaster'',
      in_tags = [''cookware'', ''stainless steel'', ''kitchen''],
      in_variants =
        [\<lparr>in_color = Some ''Silver'', in_size = Some ''10-Piece'', in_stock = Some 28,
          in_sku = Some ''KITCHEN-SET-SIL-10'', in_priceModifier = Some 0,
          in_images = [''cookware_silver_1.jpg'', ''cookware_silver_2.jpg'']\<rparr>,
         \<lparr>in_color = Some ''Black'', in_size = Some ''10-Piece'', in_stock = Some 15,
          in_sku = Some ''KITCHEN-SET-BLK-10'', in_priceModifier = Some 20,
          in_images = [''cookware_black_1.jpg'', ''cookware_black_2.jpg'']\<rparr>],
      in_isActive = None,
      in_rating_average = Some (43 / 10),
      in_rating_count = Some 234\<rparr>"

definition sampleProducts :: "productDoc list" where
  "sampleProducts = [iPhone, nikeAirMax, greatGatsby, cookwareSet]"

text \<open>
  \<^verbatim>\<open>insertSampleData\<close> (lines 137-303): clear the collection, insert the samples; an
  error is caught and logged, so the caller only sees the collection.
\<close>

definition insertSampleData :: "nat \<Rightarrow> db \<Rightarrow> db" where
  "insertSampleData now d = snd (insertMany now sampleProducts (deleteMany d))"

subsection \<open>Derived values of a product\<close>

text \<open>
  The virtual \<^verbatim>\<open>totalStock\<close> (lines 111-113) and the method \<^verbatim>\<open>hasStock\<close>
  (lines 116-118). The virtual adds with the \<open>+\<close> of JavaScript, here \<open>add\<close>:
  \<^verbatim>\<open>this.variants.reduce((total, variant) => total + variant.stock, 0)\<close>
\<close>

definition totalStock :: "(rat \<Rightarrow> rat \<Rightarrow> rat) \<Rightarrow> product \<Rightarrow> rat" where
  "totalStock add p = foldl (\<lambda>total v. add total (stock v)) 0 (variants p)"

definition hasStock :: "product \<Rightarrow> bool" where
  "hasStock p = list_ex (\<lambda>v. 0 < stock v) (variants p)"

subsection \<open>The queries of runQueries\<close>

text \<open>
  Query 5 (lines 349-352), with the pattern of the regular expression as a parameter:
  \<^verbatim>\<open>Product.find({ 'variants.color': /black/i, 'variants.stock': { $gt: 0 } })\<close>
\<close>

definition findByVariantColorPattern :: "string \<Rightarrow> db \<Rightarrow> product list" where
  "findByVariantColorPattern pat d =
     find_docs [(''variants.color'', RegexI pat), (''variants.stock'', Gt 0)] d"













text \<open>
  Query 8 (lines 409-412), with the SKU and the new stock as parameters:
  \<^verbatim>\<open>Product.updateOne({ 'variants.sku': sku }, { $set: { 'variants.$.stock': newStock } })\<close>
  The filter is cast before it is sent, which applies the setter of the path, \<open>trim\<close>,
  to the SKU. The first document the filter matches is updated; \<open>$\<close> stands for the
  first array element that met the filter's condition. With \<open>timestamps: true\<close> the
  update also sets \<open>updatedAt\<close>. Validators do not run on an update unless asked for,
  and the call does not ask. The result counts the documents matched and those changed.
\<close>

record updateResult =
  matchedCount :: nat
  modifiedCount :: nat

fun update_first :: "('a \<Rightarrow> bool) \<Rightarrow> ('a \<Rightarrow> 'a) \<Rightarrow> 'a list \<Rightarrow> 'a list" where
  "update_first P f [] = []"
| "update_first P f (x # xs) = (if P x then f x # xs else x # update_first P f xs)"

definition setVariantStock :: "nat \<Rightarrow> string \<Rightarrow> rat \<Rightarrow> product \<Rightarrow> product" where
  "setVariantStock now s newStock p =
     p\<lparr>variants := update_first (\<lambda>v. sku v = s) (\<lambda>v. v\<lparr>stock := newStock\<rparr>) (variants p),
       updatedAt := now\<rparr>"

definition updateVariantStock :: "nat \<Rightarrow> string \<Rightarrow> rat \<Rightarrow> db \<Rightarrow> updateResult \<times> db" where
  "updateVariantStock now s newStock d =
     (let k = trim s;
          flt = [(''variants.sku'', Eq (Str k))]
      in case find (matches flt) (docs d) of
           None \<Rightarrow> (\<lparr>matchedCount = 0, modifiedCount = 0\<rparr>, d)
         | Some p \<Rightarrow>
             (\<lparr>matchedCount = 1,
               modifiedCount = (if setVariantStock now k newStock p = p then 0 else 1)\<rparr>,
              d\<lparr>docs := update_first (matches flt) (setVariantStock now k newStock) (docs d)\<rparr>))"

subsection \<open>Catalog states and the ranges of the schema\<close>

text \<open>
  The collections the program can produce: it starts empty, and is changed by
  \<open>deleteMany\<close>, \<open>insertMany\<close> and the stock update only.
\<close>

inductive reachable :: "db \<Rightarrow> bool" where
  start: "reachable emptyDb"
| cleared: "reachable d \<Longrightarrow> reachable (deleteMany d)"
| inserted: "reachable d \<Longrightarrow> reachable (snd (insertMany now pds d))"
| updated: "reachable d \<Longrightarrow> reachable (snd (updateVariantStock now s newStock d))"

text \<open>
  The ranges the schema declares with \<open>min\<close> and \<open>max\<close>: \<open>stock\<close> (line 30),
  \<open>priceModifier\<close> (lines 41-42), \<open>basePrice\<close> (line 65), \<open>rating.average\<close>
  (lines 93-94). \<open>rating.count\<close> (lines 96-99) declares a type and a default only.
\<close>

definition variantInRange :: "variant \<Rightarrow> bool" where
  "variantInRange v = (0 \<le> stock v \<and> - 1000 \<le> priceModifier v \<and> priceModifier v \<le> 1000)"

definition productInRange :: "product \<Rightarrow> bool" where
  "productInRange p =
     (0 \<le> average (rating p) \<and> average (rating p) \<le> 5 \<and> 0 \<le> basePrice p
      \<and> list_all variantInRange (variants p))"

definition catalogInRange :: "db \<Rightarrow> bool" where
  "catalogInRange d = list_all productInRange (docs d)"

subsection \<open>Further documents, for concrete runs\<close>

text \<open>The Nike sample with \<open>isActive: false\<close>.\<close>

definition nikeInactive :: productDoc where
  "nikeInactive = nikeAirMax\<lparr>in_isActive := Some False\<rparr>"

text \<open>The cookware sample with one variant at stock 2 and the other at stock 500.\<close>

definition cookwareLowHigh :: productDoc where
  "cookwareLowHigh =
     cookwareSet\<lparr>in_variants :=
       [\<lparr>in_color = Some ''Silver'', in_size = Some ''10-Piece'', in_stock = Some 2,
          in_sku = Some ''KITCHEN-SET-SIL-10'', in_priceModifier = Some 0, in_images = []\<rparr>,
        \<lparr>in_color = Some ''Black'', in_size = Some ''10-Piece'', in_stock = Some 500,
          in_sku = Some ''KITCHEN-SET-BLK-10'', in_priceModifier = Some 20, in_images = []\<rparr>]\<rparr>"

text \<open>The cookware sample with a single variant that reuses a SKU of the iPhone sample.\<close>

definition cookwareClash :: productDoc where
  "cookwareClash =
     cookwareSet\<lparr>in_variants :=
       [\<lparr>in_color = Some ''Silver'', in_size = Some ''10-Piece'', in_stock = Some 28,
          in_sku = Some ''IP15P-BLK-128'', in_priceModifier = Some 0, in_images = []\<rparr>]\<rparr>"

text \<open>The Gatsby sample with a rating count of -3.\<close>

definition gatsbyNegativeCount :: productDoc where
  "gatsbyNegativeCount = greatGatsby\<lparr>in_rating_count := Some (- 3)\<rparr>"

text \<open>The Gatsby sample with a base price of -1.\<close>

definition gatsbyNegativePrice :: productDoc where
  "gatsbyNegativePrice = greatGatsby\<lparr>in_basePrice := Some (- 1)\<rparr>"

section \<open>Properties\<close>

subsection \<open>What the filter documents of the source mean\<close>

lemma matches_lowStock:
  "matches [(''variants.stock'', Lte t), (''isActive'', Eq (Bool True))] p
     \<longleftrightarrow> isActive p \<and> (\<exists>v\<in>set (variants p). stock v \<le> t)"
  by (auto simp add: matches_def values_at_def list_ex_iff)

lemma matches_category:
  "matches [(''category'', Eq (Str c)), (''isActive'', Eq (Bool True))] p
     \<longleftrightarrow> category p = c \<and> isActive p"
  by (auto simp add: matches_def values_at_def)

lemma matches_sku:
  "matches [(''variants.sku'', Eq (Str s))] p \<longleftrightarrow> (\<exists>v\<in>set (variants p). sku v = s)"
  by (auto simp add: matches_def values_at_def list_ex_iff)

lemma matches_color:
  "matches [(''variants.color'', RegexI pat), (''variants.stock'', Gt 0)] p
     \<longleftrightarrow> (\<exists>v\<in>set (variants p). includes_str (map lower pat) (map lower (color v)))
         \<and> (\<exists>v\<in>set (variants p). 0 < stock v)"
  by (auto simp add: matches_def values_at_def list_ex_iff)

subsection \<open>findLowStock\<close>

text \<open>
  C1. For every catalog and every threshold \<open>T\<close>, \<open>findLowStock\<close> returns exactly the
  products with \<open>isActive\<close> true that have at least one variant with stock at most
  \<open>T\<close>, in the order of the collection. The threshold is 5 when the argument is left
  out. The test is on single variants and not on the total: an active product whose
  variants have stock 2 and 500 is returned under the default threshold.
\<close>

theorem findLowStock_exact:
  "findLowStock (Some T) d
     = filter (\<lambda>p. isActive p \<and> (\<exists>v\<in>set (variants p). stock v \<le> T)) (docs d)
   \<and> findLowStock None d = findLowStock (Some 5) d
   \<and> (p \<in> set (docs d) \<and> isActive p \<and> map stock (variants p) = [2, 500]
        \<longrightarrow> p \<in> set (findLowStock None d))"
proof -
  have exact: "findLowStock (Some t) d
      = filter (\<lambda>p. isActive p \<and> (\<exists>v\<in>set (variants p). stock v \<le> t)) (docs d)" for t
    by (simp add: findLowStock_def find_docs_def matches_lowStock cong: filter_cong)
  have dflt: "findLowStock None d = findLowStock (Some 5) d"
    by (simp add: findLowStock_def)
  have "p \<in> set (findLowStock None d)"
    if "p \<in> set (docs d)" "isActive p" "map stock (variants p) = [2, 500]"
  proof -
    from that(3) obtain v where "v \<in> set (variants p)" "stock v = 2"
      by (cases "variants p") auto
    then have "\<exists>v\<in>set (variants p). stock v \<le> 5" by force
    with that(1,2) show ?thesis by (simp add: dflt exact)
  qed
  then show ?thesis using exact [of T] dflt by (intro conjI impI) simp_all
qed

text \<open>
  The cookware product with stocks 2 and 500 is found under the default threshold, and
  on the sample catalog the threshold 10 finds the iPhone (a variant at 8) and the Nike
  shoe (a variant at 0).
\<close>

theorem findLowStock_exact_witness:
  "hd (docs (snd (insertMany 0 [cookwareLowHigh] emptyDb)))
     \<in> set (findLowStock None (snd (insertMany 0 [cookwareLowHigh] emptyDb)))
   \<and> map name (findLowStock (Some 10) (insertSampleData 0 emptyDb))
     = [''iPhone 15 Pro'', ''Nike Air Max 270'']"
proof -
  let ?d = "snd (insertMany 0 [cookwareLowHigh] emptyDb)"
  have h: "hd (docs ?d) \<in> set (docs ?d) \<and> isActive (hd (docs ?d))
           \<and> map stock (variants (hd (docs ?d))) = [2, 500]"
    by code_simp
  have s: "map name (findLowStock (Some 10) (insertSampleData 0 emptyDb))
     = [''iPhone 15 Pro'', ''Nike Air Max 270'']"
    by code_simp
  from findLowStock_exact [of 5 ?d "hd (docs ?d)"] h s show ?thesis
    by blast
qed

text \<open>
  C10. The low-stock query is monotone in its threshold: with \<open>T1 \<le> T2\<close>, every product
  that \<open>findLowStock T1\<close> returns is returned by \<open>findLowStock T2\<close>.
\<close>

theorem findLowStock_monotone:
  "T1 \<le> T2 \<Longrightarrow> set (findLowStock (Some T1) d) \<subseteq> set (findLowStock (Some T2) d)"
proof -
  assume le: "T1 \<le> T2"
  have "matches [(''variants.stock'', Lte T2), (''isActive'', Eq (Bool True))] p"
    if "matches [(''variants.stock'', Lte T1), (''isActive'', Eq (Bool True))] p" for p
    using that le unfolding matches_lowStock by (meson order_trans)
  then show ?thesis
    by (auto simp add: findLowStock_def find_docs_def)
qed

theorem findLowStock_monotone_witness:
  "(5::rat) \<le> 10
   \<and> set (findLowStock (Some 5) (insertSampleData 0 emptyDb))
      \<subseteq> set (findLowStock (Some 10) (insertSampleData 0 emptyDb))"
proof -
  have h: "(5::rat) \<le> 10" by simp
  from findLowStock_monotone [OF h] h show ?thesis by blast
qed

subsection \<open>The substring test\<close>

lemma starts_with_iff: "starts_with pat s \<longleftrightarrow> (\<exists>zs. s = pat @ zs)"
  by (induction pat s rule: starts_with.induct) auto

lemma includes_str_iff: "includes_str pat s \<longleftrightarrow> (\<exists>ys zs. s = ys @ pat @ zs)"
proof (induction s)
  case Nil
  then show ?case by auto
next
  case (Cons x xs)
  show ?case
  proof
    assume "includes_str pat (x # xs)"
    then consider "starts_with pat (x # xs)" | "includes_str pat xs" by auto
    then show "\<exists>ys zs. x # xs = ys @ pat @ zs"
    proof cases
      case 1
      then obtain zs where "x # xs = pat @ zs" by (auto simp: starts_with_iff)
      then have "x # xs = [] @ pat @ zs" by simp
      then show ?thesis by blast
    next
      case 2
      with Cons obtain ys zs where "xs = ys @ pat @ zs" by blast
      then have "x # xs = (x # ys) @ pat @ zs" by simp
      then show ?thesis by blast
    qed
  next
    assume "\<exists>ys zs. x # xs = ys @ pat @ zs"
    then obtain ys zs where eq: "x # xs = ys @ pat @ zs" by blast
    show "includes_str pat (x # xs)"
    proof (cases ys)
      case Nil
      with eq have "starts_with pat (x # xs)" by (auto simp: starts_with_iff)
      then show ?thesis by simp
    next
      case (Cons y ys')
      with eq have "xs = ys' @ pat @ zs" by simp
      with Cons.IH have "includes_str pat xs" by blast
      then show ?thesis by simp
    qed
  qed
qed

subsection \<open>What a batch leaves in the collection\<close>

lemma check_Nil: "check ok path = [] \<longleftrightarrow> ok"
  by (simp add: check_def)

lemma validateVariant_Nil:
  "validateVariant i v = [] \<longleftrightarrow>
     required_str (map_option trim (in_color v)) \<and> required_str (map_option trim (in_size v))
     \<and> required_num (in_stock v) \<and> min_ok 0 (in_stock v)
     \<and> required_str (map_option trim (in_sku v))
     \<and> min_ok (- 1000) (in_priceModifier v) \<and> max_ok 1000 (in_priceModifier v)"
  by (auto simp add: validateVariant_def check_Nil)

lemma in_set_enumerate_snd: "v \<in> set vs \<Longrightarrow> \<exists>i. (i, v) \<in> set (enumerate n vs)"
proof -
  assume "v \<in> set vs"
  then obtain k where "k < length vs" "vs ! k = v" by (auto simp add: in_set_conv_nth)
  then have "(k + n, v) \<in> set (enumerate n vs)" by (simp add: in_set_enumerate_eq)
  then show ?thesis by blast
qed

lemma validateVariant_index: "validateVariant i v = [] \<longleftrightarrow> validateVariant 0 v = []"
  by (simp only: validateVariant_Nil)

lemma validateVariants_Nil:
  "(\<forall>x\<in>set (enumerate n vs). (case x of (i, v) \<Rightarrow> validateVariant i v) = [])
     \<longleftrightarrow> (\<forall>v\<in>set vs. validateVariant 0 v = [])"
proof
  assume a: "\<forall>x\<in>set (enumerate n vs). (case x of (i, v) \<Rightarrow> validateVariant i v) = []"
  show "\<forall>v\<in>set vs. validateVariant 0 v = []"
  proof
    fix v assume "v \<in> set vs"
    then obtain i where "(i, v) \<in> set (enumerate n vs)"
      using in_set_enumerate_snd [of v vs n] by auto
    with a have "validateVariant i v = []" by force
    then show "validateVariant 0 v = []" using validateVariant_index by blast
  qed
next
  assume a: "\<forall>v\<in>set vs. validateVariant 0 v = []"
  show "\<forall>x\<in>set (enumerate n vs). (case x of (i, v) \<Rightarrow> validateVariant i v) = []"
  proof
    fix x assume x: "x \<in> set (enumerate n vs)"
    obtain i v where iv: "x = (i, v)" by (cases x)
    with x have "v \<in> set vs" by (auto simp add: in_set_enumerate_eq)
    with a have "validateVariant 0 v = []" by blast
    then have "validateVariant i v = []" using validateVariant_index by blast
    with iv show "(case x of (i, v) \<Rightarrow> validateVariant i v) = []" by simp
  qed
qed

lemma validateProduct_Nil:
  "validateProduct p = [] \<longleftrightarrow>
     required_str (map_option trim (in_name p)) \<and> maxlength_ok 100 (map_option trim (in_name p))
     \<and> required_str (in_description p) \<and> maxlength_ok 1000 (in_description p)
     \<and> required_num (in_basePrice p) \<and> min_ok 0 (in_basePrice p)
     \<and> required_str (in_category p) \<and> enum_ok (in_category p)
     \<and> required_str (map_option trim (in_brand p))
     \<and> (\<forall>v\<in>set (in_variants p). validateVariant 0 v = [])
     \<and> min_ok 0 (in_rating_average p) \<and> max_ok 5 (in_rating_average p)"
  unfolding validateProduct_def
  by (simp only: append_is_Nil_conv check_Nil concat_eq_Nil_conv set_map ball_simps
      validateVariants_Nil conj_assoc)

lemma stored_category:
  "validateProduct pd = [] \<Longrightarrow> category (storedProduct now i pd) \<in> set categoryEnum"
proof -
  assume "validateProduct pd = []"
  then have "required_str (in_category pd)" "enum_ok (in_category pd)"
    by (simp_all only: validateProduct_Nil)
  then obtain c where "in_category pd = Some c" "c \<in> set categoryEnum"
    by (cases "in_category pd") (simp_all add: required_str_def enum_ok_def)
  then show ?thesis
    by (simp add: storedProduct_def str_or_empty_def)
qed

lemma insertOrdered_docs:
  "\<exists>ps. docs (snd (insertOrdered now pds d)) = docs d @ ps
        \<and> (\<forall>p\<in>set ps. \<exists>pd\<in>set pds. \<exists>i. p = storedProduct now i pd)"
proof (induction pds arbitrary: d)
  case Nil
  then show ?case by simp
next
  case (Cons pd pds)
  show ?case
  proof (cases "insertOne now pd d")
    case (Inl e)
    then show ?thesis by simp
  next
    case (Inr r)
    obtain p d' where r: "r = (p, d')" by (cases r)
    with Inr have p: "p = storedProduct now (nextId d) pd" and d': "docs d' = docs d @ [p]"
      by (auto simp add: insertOne_def Let_def split: if_splits)
    from Cons.IH [of d'] obtain ps where
      ps: "docs (snd (insertOrdered now pds d')) = docs d' @ ps"
          "\<forall>q\<in>set ps. \<exists>pd\<in>set pds. \<exists>i. q = storedProduct now i pd"
      by blast
    have "snd (insertOrdered now (pd # pds) d) = snd (insertOrdered now pds d')"
      using Inr r by (cases "insertOrdered now pds d'"; cases "fst (insertOrdered now pds d')") simp_all
    then have "docs (snd (insertOrdered now (pd # pds) d)) = docs d @ (p # ps)"
      using ps(1) d' by simp
    moreover have "\<forall>q\<in>set (p # ps). \<exists>pd'\<in>set (pd # pds). \<exists>i. q = storedProduct now i pd'"
      using p ps(2) by auto
    ultimately show ?thesis by blast
  qed
qed

lemma insertMany_docs:
  "\<exists>ps. docs (snd (insertMany now pds d)) = docs d @ ps
        \<and> (\<forall>p\<in>set ps. \<exists>pd\<in>set pds. \<exists>i. validateProduct pd = [] \<and> p = storedProduct now i pd)"
proof (cases "find (\<lambda>pd. validateProduct pd \<noteq> []) pds")
  case None
  then have valid: "\<forall>pd\<in>set pds. validateProduct pd = []"
    by (auto simp add: find_None_iff)
  from None have "insertMany now pds d = insertOrdered now pds d"
    by (simp add: insertMany_def)
  with insertOrdered_docs [of now pds d] valid show ?thesis by auto
next
  case (Some bad)
  then have "docs (snd (insertMany now pds d)) = docs d @ []"
    by (simp add: insertMany_def)
  then show ?thesis by (metis empty_iff list.set(1))
qed

lemma set_update_first: "set (update_first P f xs) \<subseteq> set xs \<union> f ` set xs"
  by (induction xs) auto

lemma updateVariantStock_docs:
  "set (docs (snd (updateVariantStock now s n d)))
     \<subseteq> set (docs d) \<union> setVariantStock now (trim s) n ` set (docs d)"
  using set_update_first [of "matches [(''variants.sku'', Eq (Str (trim s)))]"
      "setVariantStock now (trim s) n" "docs d"]
  by (auto simp add: updateVariantStock_def Let_def split: option.splits)

lemma reachable_category:
  "reachable d \<Longrightarrow> \<forall>p\<in>set (docs d). category p \<in> set categoryEnum"
proof (induction rule: reachable.induct)
  case start
  then show ?case by (simp add: emptyDb_def)
next
  case (cleared d)
  then show ?case by (simp add: deleteMany_def)
next
  case (inserted d now pds)
  from insertMany_docs [of now pds d] obtain ps where
    ps: "docs (snd (insertMany now pds d)) = docs d @ ps"
        "\<forall>p\<in>set ps. \<exists>pd\<in>set pds. \<exists>i. validateProduct pd = [] \<and> p = storedProduct now i pd"
    by blast
  have "category p \<in> set categoryEnum" if "p \<in> set ps" for p
  proof -
    from ps(2) that obtain pd i where "validateProduct pd = []" "p = storedProduct now i pd"
      by auto
    then show ?thesis using stored_category [of pd now i] by simp
  qed
  with inserted.IH ps(1) show ?case by auto
next
  case (updated d now s newStock)
  have same: "category (setVariantStock now k newStock p) = category p" for p k
    by (simp add: setVariantStock_def)
  show ?case
  proof
    fix p assume "p \<in> set (docs (snd (updateVariantStock now s newStock d)))"
    with updateVariantStock_docs [of now s newStock d]
    have "p \<in> set (docs d) \<union> setVariantStock now (trim s) newStock ` set (docs d)"
      by (rule subsetD)
    then obtain q where "q \<in> set (docs d)" "category p = category q"
      using same by auto
    with updated.IH show "category p \<in> set categoryEnum" by simp
  qed
qed

subsection \<open>findByCategory\<close>

text \<open>
  C2. For every catalog and every argument \<open>c\<close>, \<open>findByCategory\<close> returns exactly the
  products whose category is \<open>c\<close> and whose \<open>isActive\<close> is true. The function has no
  error result. In a catalog the program can produce, every stored category passed the
  \<open>enum\<close> validator, so an argument outside the enumeration finds nothing.
\<close>

theorem findByCategory_exact:
  "findByCategory c d = filter (\<lambda>p. category p = c \<and> isActive p) (docs d)
   \<and> (reachable d \<and> c \<notin> set categoryEnum \<longrightarrow> findByCategory c d = [])"
proof -
  have exact: "findByCategory c d = filter (\<lambda>p. category p = c \<and> isActive p) (docs d)"
    by (simp add: findByCategory_def find_docs_def matches_category cong: filter_cong)
  have "findByCategory c d = []" if "reachable d" "c \<notin> set categoryEnum"
  proof -
    from reachable_category [OF that(1)] that(2) have "\<forall>p\<in>set (docs d). category p \<noteq> c"
      by blast
    then show ?thesis by (simp add: exact filter_empty_conv)
  qed
  with exact show ?thesis by blast
qed

text \<open>
  On the sample catalog \<open>Nonexistent\<close> finds nothing and \<open>Electronics\<close> finds the
  iPhone alone.
\<close>

theorem findByCategory_exact_witness:
  "reachable (insertSampleData 0 emptyDb) \<and> ''Nonexistent'' \<notin> set categoryEnum
   \<and> findByCategory ''Nonexistent'' (insertSampleData 0 emptyDb) = []
   \<and> map name (findByCategory ''Electronics'' (insertSampleData 0 emptyDb)) = [''iPhone 15 Pro'']"
proof -
  have r: "reachable (insertSampleData 0 emptyDb)"
    unfolding insertSampleData_def
    by (intro reachable.inserted reachable.cleared reachable.start)
  have n: "''Nonexistent'' \<notin> set categoryEnum"
    by (simp add: categoryEnum_def)
  have e: "map name (findByCategory ''Electronics'' (insertSampleData 0 emptyDb)) = [''iPhone 15 Pro'']"
    by code_simp
  from findByCategory_exact [of "''Nonexistent''" "insertSampleData 0 emptyDb"] r n
  have "findByCategory ''Nonexistent'' (insertSampleData 0 emptyDb) = []" by (elim conjE impE) simp_all
  with r n e show ?thesis by (intro conjI)
qed

subsection \<open>The variant-color query\<close>

text \<open>
  C9, as stated, fails: the filter of query 5 has no \<open>isActive\<close> entry. The Nike
  product stored with \<open>isActive: false\<close> has black variants in stock, and the query
  returns it.
\<close>

theorem findByVariantColorPattern_counterexample:
  "map isActive (findByVariantColorPattern ''black'' (snd (insertMany 0 [nikeInactive] emptyDb)))
     = [False]"
  by code_simp


text \<open>
  C9, amended. The query looks at every product, active or not. It returns every
  product that has a variant whose color contains the pattern, letter case ignored,
  and whose stock is above 0; and every product it returns has a variant whose color
  contains the pattern and a variant with stock above 0.
\<close>

theorem findByVariantColorPattern_amended:
  "(p \<in> set (docs d)
      \<and> (\<exists>v\<in>set (variants p). includes_str (map lower pat) (map lower (color v)) \<and> 0 < stock v)
      \<longrightarrow> p \<in> set (findByVariantColorPattern pat d))
   \<and> (p \<in> set (findByVariantColorPattern pat d)
      \<longrightarrow> p \<in> set (docs d)
          \<and> (\<exists>v\<in>set (variants p). includes_str (map lower pat) (map lower (color v)))
          \<and> (\<exists>v\<in>set (variants p). 0 < stock v))"
proof -
  have mem: "p \<in> set (findByVariantColorPattern pat d) \<longleftrightarrow>
      p \<in> set (docs d)
      \<and> (\<exists>v\<in>set (variants p). includes_str (map lower pat) (map lower (color v)))
      \<and> (\<exists>v\<in>set (variants p). 0 < stock v)"
    by (simp add: findByVariantColorPattern_def find_docs_def matches_color)
  show ?thesis unfolding mem by blast
qed


text \<open>The inactive Nike product meets the first hypothesis and is returned.\<close>

theorem findByVariantColorPattern_amended_witness:
  "hd (docs (snd (insertMany 0 [nikeInactive] emptyDb)))
     \<in> set (findByVariantColorPattern ''black'' (snd (insertMany 0 [nikeInactive] emptyDb)))
   \<and> \<not> isActive (hd (docs (snd (insertMany 0 [nikeInactive] emptyDb))))"
proof -
  let ?d = "snd (insertMany 0 [nikeInactive] emptyDb)"
  have h: "hd (docs ?d) \<in> set (docs ?d)
      \<and> list_ex (\<lambda>v. includes_str (map lower ''black'') (map lower (color v)) \<and> 0 < stock v)
           (variants (hd (docs ?d)))"
    by code_simp
  have i: "\<not> isActive (hd (docs ?d))"
    by code_simp
  from h have "hd (docs ?d) \<in> set (docs ?d)
      \<and> (\<exists>v\<in>set (variants (hd (docs ?d))).
            includes_str (map lower ''black'') (map lower (color v)) \<and> 0 < stock v)"
    by (simp add: list_ex_iff)
  with findByVariantColorPattern_amended [of "hd (docs ?d)" ?d "''black''"] i
  show ?thesis by blast
qed


subsection \<open>The stock update\<close>

lemma update_first_nth:
  "i < length xs \<Longrightarrow> P (xs ! i) \<Longrightarrow> list_all (\<lambda>x. \<not> P x) (take i xs)
     \<Longrightarrow> update_first P f xs = xs[i := f (xs ! i)]"
proof (induction xs arbitrary: i)
  case Nil
  then show ?case by simp
next
  case (Cons x xs)
  then show ?case by (cases i) simp_all
qed

lemma find_first_nth:
  "i < length xs \<Longrightarrow> P (xs ! i) \<Longrightarrow> list_all (\<lambda>x. \<not> P x) (take i xs)
     \<Longrightarrow> find P xs = Some (xs ! i)"
proof (induction xs arbitrary: i)
  case Nil
  then show ?case by simp
next
  case (Cons x xs)
  then show ?case by (cases i) simp_all
qed


text \<open>
  C3. In a catalog that contains a variant with the given SKU, \<open>updateVariantStock\<close>
  sets the stock of that variant to \<open>newStock\<close> and the \<open>updatedAt\<close> of its product to
  the time of the call, and changes nothing else: the variant's other fields, its
  siblings, the product's other fields and every other product stay as they were. The
  variant is the first one that carries the SKU, at variant \<open>j\<close> of product \<open>i\<close>; with
  SKUs unique it is the only one. The SKU is compared as the query casts it, trimmed:
  for a SKU without white space at its ends, such as the one of the source, that is
  the SKU itself.
\<close>

theorem updateVariantStock_frame:
  assumes i: "i < length (docs d)"
    and j: "j < length (variants (docs d ! i))"
    and s: "sku (variants (docs d ! i) ! j) = trim s"
    and before_i: "list_all (\<lambda>p. list_all (\<lambda>v. sku v \<noteq> trim s) (variants p)) (take i (docs d))"
    and before_j: "list_all (\<lambda>v. sku v \<noteq> trim s) (take j (variants (docs d ! i)))"
  shows "snd (updateVariantStock now s newStock d) =
     d\<lparr>docs := (docs d)[i := (docs d ! i)
        \<lparr>variants := (variants (docs d ! i))[j := (variants (docs d ! i) ! j)\<lparr>stock := newStock\<rparr>],
         updatedAt := now\<rparr>]\<rparr>"
proof -
  let ?k = "trim s"
  let ?flt = "[(''variants.sku'', Eq (Str ?k))]"
  let ?p = "docs d ! i"
  from j s have here: "matches ?flt ?p"
    unfolding matches_sku using nth_mem by blast
  from before_i have earlier: "list_all (\<lambda>p. \<not> matches ?flt p) (take i (docs d))"
    unfolding matches_sku by (simp add: list_all_iff)
  have found: "find (matches ?flt) (docs d) = Some ?p"
    using find_first_nth [OF i here earlier] .
  have upd: "update_first (matches ?flt) (setVariantStock now ?k newStock) (docs d)
      = (docs d)[i := setVariantStock now ?k newStock ?p]"
    using update_first_nth [OF i here earlier] .
  have "update_first (\<lambda>v. sku v = ?k) (\<lambda>v. v\<lparr>stock := newStock\<rparr>) (variants ?p)
      = (variants ?p)[j := (variants ?p ! j)\<lparr>stock := newStock\<rparr>]"
    using update_first_nth [of j "variants ?p" "\<lambda>v. sku v = ?k"] j s before_j by simp
  then have "setVariantStock now ?k newStock ?p
      = ?p\<lparr>variants := (variants ?p)[j := (variants ?p ! j)\<lparr>stock := newStock\<rparr>], updatedAt := now\<rparr>"
    by (simp add: setVariantStock_def)
  with found upd show ?thesis
    by (simp add: updateVariantStock_def Let_def)
qed

text \<open>
  The update of the source, SKU \<open>NIKE-AM270-BW-9\<close> to stock 40, on the sample catalog:
  the variant is the first of the second product, whose stocks become 40, 32, 18, 0.
\<close>

theorem updateVariantStock_frame_witness:
  "snd (updateVariantStock 9 ''NIKE-AM270-BW-9'' 40 (insertSampleData 0 emptyDb)) =
     (insertSampleData 0 emptyDb)\<lparr>docs := (docs (insertSampleData 0 emptyDb))[1 :=
        (docs (insertSampleData 0 emptyDb) ! 1)
        \<lparr>variants := (variants (docs (insertSampleData 0 emptyDb) ! 1))[0 :=
            (variants (docs (insertSampleData 0 emptyDb) ! 1) ! 0)\<lparr>stock := 40\<rparr>],
         updatedAt := 9\<rparr>]\<rparr>
   \<and> map stock (variants (docs (snd (updateVariantStock 9 ''NIKE-AM270-BW-9'' 40
         (insertSampleData 0 emptyDb))) ! 1)) = [40, 32, 18, 0]"
proof -
  let ?d = "insertSampleData 0 emptyDb"
  have h1: "1 < length (docs ?d)" by code_simp
  have h2: "0 < length (variants (docs ?d ! 1))" by code_simp
  have h3: "sku (variants (docs ?d ! 1) ! 0) = trim ''NIKE-AM270-BW-9''" by code_simp
  have h4: "list_all (\<lambda>p. list_all (\<lambda>v. sku v \<noteq> trim ''NIKE-AM270-BW-9'') (variants p))
              (take 1 (docs ?d))" by code_simp
  have h5: "list_all (\<lambda>v. sku v \<noteq> trim ''NIKE-AM270-BW-9'')
              (take 0 (variants (docs ?d ! 1)))"
    by simp
  have c: "map stock (variants (docs (snd (updateVariantStock 9 ''NIKE-AM270-BW-9'' 40 ?d)) ! 1))
      = [40, 32, 18, 0]" by code_simp
  from updateVariantStock_frame [OF h1 h2 h3 h4 h5, of 9 40] c show ?thesis
    by (intro conjI)
qed






subsection \<open>The total-stock pipeline\<close>

text \<open>With an addition that does not round, the virtual is the sum of the stocks.\<close>

lemma totalStock_exact_add: "totalStock (+) p = sum_list (map stock (variants p))"
proof -
  have "foldl (\<lambda>total v. total + stock v) a vs = a + sum_list (map stock vs)"
    for a :: rat and vs :: "variant list"
    by (induction vs arbitrary: a) simp_all
  then show ?thesis by (simp add: totalStock_def)
qed



subsection \<open>The average-price pipeline\<close>














subsection \<open>The ranges of the schema\<close>

text \<open>
  C8, as stated, fails. \<open>rating.count\<close> has no validator: a product with the count -3
  is accepted and stored with it. And the stock update does not run the validators: on
  the sample catalog the stock -1 is written.
\<close>

theorem schema_ranges_counterexample:
  "length (docs (snd (insertMany 0 [gatsbyNegativeCount] emptyDb))) = 1
   \<and> count (rating (hd (docs (snd (insertMany 0 [gatsbyNegativeCount] emptyDb))))) = - 3
   \<and> map stock (variants (docs (snd (updateVariantStock 9 ''NIKE-AM270-BW-9'' (- 1)
         (insertSampleData 0 emptyDb))) ! 1)) = [- 1, 32, 18, 0]"
  by code_simp

lemma stored_variant_in_range:
  "validateVariant 0 v = [] \<Longrightarrow> variantInRange (storedVariant j v)"
proof -
  assume "validateVariant 0 v = []"
  then have "required_num (in_stock v)" "min_ok 0 (in_stock v)"
    "min_ok (- 1000) (in_priceModifier v)" "max_ok 1000 (in_priceModifier v)"
    by (simp_all only: validateVariant_Nil)
  then show ?thesis
    by (cases "in_stock v"; cases "in_priceModifier v")
       (simp_all add: variantInRange_def storedVariant_def num_or_def required_num_def
          min_ok_def max_ok_def)
qed

lemma stored_variants_in_range:
  "\<forall>v\<in>set vs. validateVariant 0 v = []
     \<Longrightarrow> list_all variantInRange (map (\<lambda>(j, v). storedVariant j v) (enumerate n vs))"
  by (induction vs arbitrary: n) (simp_all add: stored_variant_in_range)

lemma stored_product_in_range:
  "validateProduct pd = [] \<Longrightarrow> productInRange (storedProduct now i pd)"
proof -
  assume "validateProduct pd = []"
  then have v: "required_num (in_basePrice pd)" "min_ok 0 (in_basePrice pd)"
    "\<forall>v\<in>set (in_variants pd). validateVariant 0 v = []"
    "min_ok 0 (in_rating_average pd)" "max_ok 5 (in_rating_average pd)"
    unfolding validateProduct_Nil by blast+
  from v(3) have "list_all variantInRange (variants (storedProduct now i pd))"
    by (simp add: storedProduct_def stored_variants_in_range)
  with v(1,2,4,5) show ?thesis
    by (cases "in_basePrice pd"; cases "in_rating_average pd")
       (simp_all add: productInRange_def storedProduct_def num_or_def required_num_def
          min_ok_def max_ok_def)
qed

lemma setVariantStock_in_range:
  assumes "productInRange p" "0 \<le> newStock"
  shows "productInRange (setVariantStock now s newStock p)"
proof -
  let ?vs = "update_first (\<lambda>v. sku v = s) (\<lambda>v. v\<lparr>stock := newStock\<rparr>) (variants p)"
  from assms(1) have old: "\<forall>v\<in>set (variants p). variantInRange v"
    by (simp add: productInRange_def list_all_iff)
  have "variantInRange w" if "w \<in> set ?vs" for w
  proof -
    from that set_update_first [of "\<lambda>v. sku v = s" "\<lambda>v. v\<lparr>stock := newStock\<rparr>" "variants p"]
    have "w \<in> set (variants p) \<or> (\<exists>v\<in>set (variants p). w = v\<lparr>stock := newStock\<rparr>)"
      by auto
    with old assms(2) show ?thesis by (auto simp add: variantInRange_def)
  qed
  then have "list_all variantInRange ?vs" by (simp add: list_all_iff)
  with assms(1) show ?thesis
    by (simp add: productInRange_def setVariantStock_def)
qed


text \<open>
  C8, amended. \<open>rating.average\<close> in [0,5], \<open>basePrice\<close> at least 0, and for every
  variant \<open>stock\<close> at least 0 and \<open>priceModifier\<close> in [-1000,1000]: this holds of the
  empty catalog and is kept by \<open>deleteMany\<close>, by \<open>insertMany\<close> of any batch, and by the
  stock update when the new stock is at least 0. Nothing is said of \<open>rating.count\<close>.
\<close>

theorem catalogInRange_preserved:
  "catalogInRange emptyDb
   \<and> (catalogInRange d \<longrightarrow> catalogInRange (deleteMany d))
   \<and> (catalogInRange d \<longrightarrow> catalogInRange (snd (insertMany now pds d)))
   \<and> (catalogInRange d \<and> 0 \<le> newStock
        \<longrightarrow> catalogInRange (snd (updateVariantStock now s newStock d)))"
proof (intro conjI impI)
  show "catalogInRange emptyDb" by (simp add: catalogInRange_def emptyDb_def)
next
  show "catalogInRange (deleteMany d)" by (simp add: catalogInRange_def deleteMany_def)
next
  assume inv: "catalogInRange d"
  from insertMany_docs [of now pds d] obtain ps where
    ps: "docs (snd (insertMany now pds d)) = docs d @ ps"
        "\<forall>p\<in>set ps. \<exists>pd\<in>set pds. \<exists>i. validateProduct pd = [] \<and> p = storedProduct now i pd"
    by blast
  have "productInRange p" if "p \<in> set ps" for p
  proof -
    from ps(2) that obtain pd i where "validateProduct pd = []" "p = storedProduct now i pd"
      by auto
    then show ?thesis using stored_product_in_range [of pd now i] by simp
  qed
  with inv ps(1) show "catalogInRange (snd (insertMany now pds d))"
    by (auto simp add: catalogInRange_def list_all_iff)
next
  assume a: "catalogInRange d \<and> 0 \<le> newStock"
  show "catalogInRange (snd (updateVariantStock now s newStock d))"
    unfolding catalogInRange_def list_all_iff
  proof
    fix p assume "p \<in> set (docs (snd (updateVariantStock now s newStock d)))"
    with updateVariantStock_docs [of now s newStock d]
    have "p \<in> set (docs d) \<union> setVariantStock now (trim s) newStock ` set (docs d)"
      by (rule subsetD)
    then consider "p \<in> set (docs d)"
      | q where "q \<in> set (docs d)" "p = setVariantStock now (trim s) newStock q" by auto
    then show "productInRange p"
    proof cases
      case 1
      with a show ?thesis by (simp add: catalogInRange_def list_all_iff)
    next
      case 2
      with a have "productInRange q" by (simp add: catalogInRange_def list_all_iff)
      with a 2(2) show ?thesis by (simp add: setVariantStock_in_range)
    qed
  qed
qed


text \<open>The run of the program: the sample catalog, then the update to stock 40.\<close>

theorem catalogInRange_preserved_witness:
  "catalogInRange (insertSampleData 0 emptyDb) \<and> (0::rat) \<le> 40
   \<and> catalogInRange (snd (updateVariantStock 9 ''NIKE-AM270-BW-9'' 40 (insertSampleData 0 emptyDb)))"
proof -
  have e: "catalogInRange emptyDb"
    using catalogInRange_preserved [of emptyDb 0 "[]" 0 "''x''"] by blast
  have c: "catalogInRange (deleteMany emptyDb)"
    using catalogInRange_preserved [of emptyDb 0 "[]" 0 "''x''"] e by blast
  have i: "catalogInRange (insertSampleData 0 emptyDb)"
    unfolding insertSampleData_def
    using catalogInRange_preserved [of "deleteMany emptyDb" 0 sampleProducts 0 "''x''"] c by blast
  have n: "(0::rat) \<le> 40" by simp
  from catalogInRange_preserved [of "insertSampleData 0 emptyDb" 9 "[]" 40 "''NIKE-AM270-BW-9''"] i n
  show ?thesis by blast
qed

subsection \<open>Inserting a batch with a repeated SKU\<close>

text \<open>
  C5, as stated, fails. The batch of the iPhone sample and a cookware product that
  reuses the SKU \<open>IP15P-BLK-128\<close> passes validation, since \<open>unique\<close> is an index and
  not a validator. The database then refuses the second document with a duplicate-key
  error, and the iPhone, inserted before it, stays in the collection.
\<close>

theorem insertMany_duplicate_sku_counterexample:
  "fst (insertMany 0 [iPhone, cookwareClash] emptyDb) = Inl DuplicateKeyError
   \<and> map name (docs (snd (insertMany 0 [iPhone, cookwareClash] emptyDb))) = [''iPhone 15 Pro'']"
  by code_simp


lemma stored_sku_keys:
  "map (\<lambda>v. Some (sku v)) (map (\<lambda>(j, v). storedVariant j v) (enumerate n vs))
     = map (\<lambda>v. Some (trim (str_or_empty (in_sku v)))) vs"
  by (induction vs arbitrary: n) (simp_all add: storedVariant_def)

lemma skuKeys_stored:
  "skuKeys (storedProduct now i pd) =
     (if in_variants pd = [] then [None]
      else map (\<lambda>v. Some (trim (str_or_empty (in_sku v)))) (in_variants pd))"
proof -
  let ?vs = "map (\<lambda>(j, v). storedVariant j v) (enumerate (Suc i) (in_variants pd))"
  have v: "variants (storedProduct now i pd) = ?vs"
    by (simp add: storedProduct_def)
  have e: "?vs = [] \<longleftrightarrow> in_variants pd = []"
    by (cases "in_variants pd") simp_all
  show ?thesis
    unfolding skuKeys_def v e stored_sku_keys ..
qed

lemma insertOne_Inr:
  assumes "insertOne now pd d = Inr (p, d')"
  shows "p = storedProduct now (nextId d) pd" "docs d' = docs d @ [p]"
    "\<forall>k\<in>set (skuKeys p). \<not> keyTaken d k"
  using assms by (auto simp add: insertOne_def Let_def list_ex_iff split: if_splits)

lemma insertOne_Inl: "insertOne now pd d = Inl e \<Longrightarrow> e = DuplicateKeyError"
  by (auto simp add: insertOne_def Let_def split: if_splits)

lemma keyTaken_append:
  "docs d' = docs d @ [p] \<Longrightarrow> keyTaken d' k \<longleftrightarrow> keyTaken d k \<or> k \<in> set (skuKeys p)"
  by (auto simp add: keyTaken_def list_ex_iff)

lemma insertOrdered_Cons_Inr:
  assumes "insertOrdered now (pd # pds) d = (Inr qs, d'')"
  obtains p d' ps where "insertOne now pd d = Inr (p, d')"
    "insertOrdered now pds d' = (Inr ps, d'')" "qs = p # ps"
proof (cases "insertOne now pd d")
  case (Inl e)
  with assms show ?thesis by simp
next
  case (Inr r)
  obtain p d' where r: "r = (p, d')" by (cases r)
  obtain res d2 where rest: "insertOrdered now pds d' = (res, d2)"
    by (cases "insertOrdered now pds d'")
  show ?thesis
  proof (cases res)
    case (Inl e)
    with assms Inr r rest show ?thesis by simp
  next
    case (Inr ps)
    with assms \<open>insertOne now pd d = Inr r\<close> r rest
    have "insertOrdered now pds d' = (Inr ps, d'')" "qs = p # ps" by simp_all
    with \<open>insertOne now pd d = Inr r\<close> r that show ?thesis by blast
  qed
qed

lemma insertOrdered_Inr_docs:
  "insertOrdered now pds d = (Inr ps, d') \<Longrightarrow> docs d' = docs d @ ps \<and> length ps = length pds"
proof (induction pds arbitrary: d ps)
  case Nil
  then show ?case by simp
next
  case (Cons pd pds)
  from Cons.prems obtain p d1 ps' where
    one: "insertOne now pd d = Inr (p, d1)" and
    rest: "insertOrdered now pds d1 = (Inr ps', d')" and ps: "ps = p # ps'"
    by (rule insertOrdered_Cons_Inr)
  from Cons.IH [OF rest] insertOne_Inr(2) [OF one] ps show ?case by simp
qed

lemma insertOrdered_Inr_fresh:
  "insertOrdered now pds d = (Inr ps, d') \<Longrightarrow>
     \<forall>pd\<in>set pds. \<forall>k\<in>set (skuKeys (storedProduct 0 0 pd)). \<not> keyTaken d k"
proof (induction pds arbitrary: d ps)
  case Nil
  then show ?case by simp
next
  case (Cons pd pds)
  from Cons.prems obtain p d1 ps' where
    one: "insertOne now pd d = Inr (p, d1)" and
    rest: "insertOrdered now pds d1 = (Inr ps', d')" and ps: "ps = p # ps'"
    by (rule insertOrdered_Cons_Inr)
  note p = insertOne_Inr [OF one]
  have keys: "skuKeys p = skuKeys (storedProduct 0 0 pd)"
    unfolding p(1) skuKeys_stored ..
  from Cons.IH [OF rest]
  have "\<forall>pd'\<in>set pds. \<forall>k\<in>set (skuKeys (storedProduct 0 0 pd')). \<not> keyTaken d k"
    using keyTaken_append [OF p(2)] by blast
  with p(3) keys show ?case by simp
qed

lemma insertOrdered_Inr_disjoint:
  "insertOrdered now pds d = (Inr ps, d') \<Longrightarrow> i < j \<Longrightarrow> j < length pds \<Longrightarrow>
     set (skuKeys (storedProduct 0 0 (pds ! i))) \<inter> set (skuKeys (storedProduct 0 0 (pds ! j))) = {}"
proof (induction pds arbitrary: d ps i j)
  case Nil
  then show ?case by simp
next
  case (Cons pd pds)
  from Cons.prems(1) obtain p d1 ps' where
    one: "insertOne now pd d = Inr (p, d1)" and
    rest: "insertOrdered now pds d1 = (Inr ps', d')" and ps: "ps = p # ps'"
    by (rule insertOrdered_Cons_Inr)
  note p = insertOne_Inr [OF one]
  have keys: "skuKeys p = skuKeys (storedProduct 0 0 pd)"
    unfolding p(1) skuKeys_stored ..
  from Cons.prems(2,3) obtain j' where j': "j = Suc j'" "j' < length pds"
    by (cases j) auto
  show ?case
  proof (cases i)
    case 0
    from insertOrdered_Inr_fresh [OF rest] j'(2)
    have "\<forall>k\<in>set (skuKeys (storedProduct 0 0 (pds ! j'))). \<not> keyTaken d1 k"
      using nth_mem by blast
    then have "\<forall>k\<in>set (skuKeys (storedProduct 0 0 (pds ! j'))). k \<notin> set (skuKeys p)"
      using keyTaken_append [OF p(2)] by blast
    with 0 j'(1) keys show ?thesis by auto
  next
    case (Suc i')
    with Cons.prems(2) j'(1) have "i' < j'" by simp
    from Cons.IH [OF rest this j'(2)] Suc j'(1) show ?thesis by simp
  qed
qed

lemma insertOrdered_Inl:
  "fst (insertOrdered now pds d) = Inl e \<Longrightarrow>
     e = DuplicateKeyError
     \<and> (\<exists>k<length pds. \<exists>ps.
           insertOrdered now (take k pds) d = (Inr ps, snd (insertOrdered now pds d))
           \<and> fst (insertOrdered now (take (Suc k) pds) d) = Inl DuplicateKeyError)"
proof (induction pds arbitrary: d)
  case Nil
  then show ?case by simp
next
  case (Cons pd pds)
  show ?case
  proof (cases "insertOne now pd d")
    case (Inl e')
    with Cons.prems have e: "e = DuplicateKeyError" by (simp add: insertOne_Inl)
    from Inl have e': "e' = DuplicateKeyError" by (rule insertOne_Inl)
    from Inl have "insertOrdered now (take 0 (pd # pds)) d
        = (Inr [], snd (insertOrdered now (pd # pds) d))" by simp
    moreover from Inl e' have
      "fst (insertOrdered now (take (Suc 0) (pd # pds)) d) = Inl DuplicateKeyError" by simp
    ultimately show ?thesis using e by (metis length_Cons zero_less_Suc)
  next
    case (Inr r)
    obtain p d1 where r: "r = (p, d1)" by (cases r)
    obtain res d2 where rest: "insertOrdered now pds d1 = (res, d2)"
      by (cases "insertOrdered now pds d1")
    from Cons.prems Inr r rest have "fst (insertOrdered now pds d1) = Inl e"
      by (cases res) simp_all
    from Cons.IH [OF this] obtain k ps where e: "e = DuplicateKeyError" and
      k: "k < length pds" "insertOrdered now (take k pds) d1 = (Inr ps, d2)"
        "fst (insertOrdered now (take (Suc k) pds) d1) = Inl DuplicateKeyError"
      using rest by auto
    from Cons.prems Inr r rest have "snd (insertOrdered now (pd # pds) d) = d2"
      by (cases res) simp_all
    with Inr r k(2) have "insertOrdered now (take (Suc k) (pd # pds)) d
        = (Inr (p # ps), snd (insertOrdered now (pd # pds) d))" by simp
    moreover have "fst (insertOrdered now (take (Suc (Suc k)) (pd # pds)) d)
        = Inl DuplicateKeyError"
    proof -
      obtain res' d3 where next_: "insertOrdered now (take (Suc k) pds) d1 = (res', d3)"
        by (cases "insertOrdered now (take (Suc k) pds) d1")
      with k(3) have "res' = Inl DuplicateKeyError" by simp
      with Inr r next_ show ?thesis by simp
    qed
    ultimately show ?thesis using e k(1) by (metis Suc_less_eq length_Cons)
  qed
qed

lemma insertOrdered_Inr_keys:
  "insertOrdered now pds d = (Inr ps, d') \<Longrightarrow>
     map skuKeys ps = map (\<lambda>pd. skuKeys (storedProduct 0 0 pd)) pds"
proof (induction pds arbitrary: d ps)
  case Nil
  then show ?case by simp
next
  case (Cons pd pds)
  from Cons.prems obtain p d1 ps' where
    one: "insertOne now pd d = Inr (p, d1)" and
    rest: "insertOrdered now pds d1 = (Inr ps', d')" and ps: "ps = p # ps'"
    by (rule insertOrdered_Cons_Inr)
  have "skuKeys p = skuKeys (storedProduct 0 0 pd)"
    unfolding insertOne_Inr(1) [OF one] skuKeys_stored ..
  with Cons.IH [OF rest] ps show ?case by simp
qed

lemma insertOrdered_Inr_taken:
  assumes "insertOrdered now pds d = (Inr ps, d')" "pd \<in> set pds"
    "k \<in> set (skuKeys (storedProduct 0 0 pd))"
  shows "keyTaken d' k"
proof -
  from assms(2) have "skuKeys (storedProduct 0 0 pd)
      \<in> set (map (\<lambda>pd. skuKeys (storedProduct 0 0 pd)) pds)" by simp
  then have "skuKeys (storedProduct 0 0 pd) \<in> set (map skuKeys ps)"
    unfolding insertOrdered_Inr_keys [OF assms(1)] .
  then obtain p where p: "p \<in> set ps" "skuKeys p = skuKeys (storedProduct 0 0 pd)" by auto
  from insertOrdered_Inr_docs [OF assms(1)] p(1) have "p \<in> set (docs d')" by simp
  moreover from assms(3) p(2) have "k \<in> set (skuKeys p)" by simp
  ultimately show ?thesis unfolding keyTaken_def list_ex_iff by blast
qed

lemma insertOrdered_stops:
  assumes first: "insertOrdered now xs d = (Inr ps, d')"
    and refused: "insertOne now y d' = Inl e"
  shows "insertOrdered now (xs @ y # zs) d = (Inl e, d')"
  using first
proof (induction xs arbitrary: d ps)
  case Nil
  with refused show ?case by simp
next
  case (Cons x xs)
  from Cons.prems obtain p d1 ps' where
    one: "insertOne now x d = Inr (p, d1)" and
    rest: "insertOrdered now xs d1 = (Inr ps', d')"
    by (rule insertOrdered_Cons_Inr)
  from Cons.IH [OF rest] one show ?case by simp
qed

lemma insertMany_valid:
  "\<forall>pd\<in>set pds. validateProduct pd = [] \<Longrightarrow> insertMany now pds d = insertOrdered now pds d"
proof -
  assume "\<forall>pd\<in>set pds. validateProduct pd = []"
  then have "find (\<lambda>pd. validateProduct pd \<noteq> []) pds = None"
    by (simp add: find_None_iff)
  then show ?thesis by (simp add: insertMany_def)
qed

lemma insertMany_invalid:
  assumes "\<exists>pd\<in>set pds. validateProduct pd \<noteq> []"
  shows "\<exists>paths. insertMany now pds d = (Inl (ValidationError paths), d)"
proof (cases "find (\<lambda>pd. validateProduct pd \<noteq> []) pds")
  case None
  with assms show ?thesis by (auto simp add: find_None_iff)
next
  case (Some bad)
  then show ?thesis by (simp add: insertMany_def)
qed

lemma shared_sku_key:
  assumes "vi \<in> set (in_variants a)" "vj \<in> set (in_variants b)"
    "map_option trim (in_sku vi) = map_option trim (in_sku vj)"
  shows "set (skuKeys (storedProduct 0 0 a)) \<inter> set (skuKeys (storedProduct 0 0 b)) \<noteq> {}"
proof -
  from assms(3) have eq: "trim (str_or_empty (in_sku vi)) = trim (str_or_empty (in_sku vj))"
    by (cases "in_sku vi"; cases "in_sku vj") (simp_all add: str_or_empty_def)
  from assms(1) have "Some (trim (str_or_empty (in_sku vi))) \<in> set (skuKeys (storedProduct 0 0 a))"
    unfolding skuKeys_stored by auto
  moreover from assms(2) have
    "Some (trim (str_or_empty (in_sku vj))) \<in> set (skuKeys (storedProduct 0 0 b))"
    unfolding skuKeys_stored by auto
  ultimately show ?thesis using eq by auto
qed


text \<open>
  C5, amended. If a record of the batch fails validation, the insert fails with a
  validation error and the catalog is unchanged. If every record is valid and two
  variants of different records, at positions \<open>i < j\<close> of the batch, carry the same SKU
  once trimmed, the insert fails with a duplicate-key error. The record refused is the
  first one, at some position \<open>k \<le> j\<close>, that cannot be inserted after the records
  before it; these \<open>k\<close> records are stored and the catalog is the one that inserting
  them alone gives. In particular, when the records before position \<open>j\<close> can be
  inserted, all \<open>j\<close> of them are stored: a partial insert.
\<close>

theorem insertMany_batch:
  "((\<exists>pd\<in>set pds. validateProduct pd \<noteq> [])
      \<longrightarrow> (\<exists>paths. fst (insertMany now pds d) = Inl (ValidationError paths))
          \<and> snd (insertMany now pds d) = d)
   \<and> ((\<forall>pd\<in>set pds. validateProduct pd = []) \<and> i < j \<and> j < length pds
       \<and> vi \<in> set (in_variants (pds ! i)) \<and> vj \<in> set (in_variants (pds ! j))
       \<and> map_option trim (in_sku vi) = map_option trim (in_sku vj)
      \<longrightarrow> fst (insertMany now pds d) = Inl DuplicateKeyError
          \<and> (\<exists>k\<le>j. \<exists>ps. length ps = k
                \<and> insertMany now (take k pds) d = (Inr ps, snd (insertMany now pds d))
                \<and> docs (snd (insertMany now pds d)) = docs d @ ps
                \<and> fst (insertMany now (take (Suc k) pds) d) = Inl DuplicateKeyError)
          \<and> (\<forall>ps0 d0. insertMany now (take j pds) d = (Inr ps0, d0)
                \<longrightarrow> insertMany now pds d = (Inl DuplicateKeyError, d0)
                    \<and> docs d0 = docs d @ ps0 \<and> length ps0 = j))"
proof (rule conjI; rule impI)
  assume "\<exists>pd\<in>set pds. validateProduct pd \<noteq> []"
  from insertMany_invalid [OF this, of now d]
  show "(\<exists>paths. fst (insertMany now pds d) = Inl (ValidationError paths))
          \<and> snd (insertMany now pds d) = d" by auto
next
  assume a: "(\<forall>pd\<in>set pds. validateProduct pd = []) \<and> i < j \<and> j < length pds
       \<and> vi \<in> set (in_variants (pds ! i)) \<and> vj \<in> set (in_variants (pds ! j))
       \<and> map_option trim (in_sku vi) = map_option trim (in_sku vj)"
  then have valid: "\<forall>pd\<in>set pds. validateProduct pd = []" and ij: "i < j" "j < length pds"
    by blast+
  from a have clash:
    "set (skuKeys (storedProduct 0 0 (pds ! i))) \<inter> set (skuKeys (storedProduct 0 0 (pds ! j))) \<noteq> {}"
    using shared_sku_key [of vi "pds ! i" vj "pds ! j"] by blast
  note all = insertMany_valid [OF valid, of now d]
  have part: "insertMany now (take k pds) d = insertOrdered now (take k pds) d" for k
    using valid by (intro insertMany_valid) (meson in_set_takeD)
  obtain res d' where res: "insertOrdered now pds d = (res, d')"
    by (cases "insertOrdered now pds d")
  have general: "fst (insertMany now pds d) = Inl DuplicateKeyError
          \<and> (\<exists>k\<le>j. \<exists>ps. length ps = k
                \<and> insertMany now (take k pds) d = (Inr ps, snd (insertMany now pds d))
                \<and> docs (snd (insertMany now pds d)) = docs d @ ps
                \<and> fst (insertMany now (take (Suc k) pds) d) = Inl DuplicateKeyError)"
  proof (cases res)
    case (Inr ps)
    with res insertOrdered_Inr_disjoint [of now pds d ps d' i j] ij clash show ?thesis
      by simp
  next
    case (Inl e)
    with res have "fst (insertOrdered now pds d) = Inl e" by simp
    from insertOrdered_Inl [OF this] obtain k ps where e: "e = DuplicateKeyError"
      and k: "k < length pds"
      and ps: "insertOrdered now (take k pds) d = (Inr ps, snd (insertOrdered now pds d))"
      and stop: "fst (insertOrdered now (take (Suc k) pds) d) = Inl DuplicateKeyError"
      by blast
    have "k \<le> j"
    proof (rule ccontr)
      assume "\<not> k \<le> j"
      then have "j < length (take k pds)" using k by simp
      from insertOrdered_Inr_disjoint [OF ps ij(1) this] \<open>\<not> k \<le> j\<close> ij(1) clash
      show False by simp
    qed
    moreover from insertOrdered_Inr_docs [OF ps] k
    have "length ps = k" "docs (snd (insertOrdered now pds d)) = docs d @ ps" by simp_all
    ultimately show ?thesis using res Inl e ps stop by (auto simp add: all part)
  qed
  have prefix: "insertMany now pds d = (Inl DuplicateKeyError, d0)
                    \<and> docs d0 = docs d @ ps0 \<and> length ps0 = j"
    if "insertMany now (take j pds) d = (Inr ps0, d0)" for ps0 d0
  proof -
    from that have first: "insertOrdered now (take j pds) d = (Inr ps0, d0)"
      by (simp add: part)
    from clash obtain key where key: "key \<in> set (skuKeys (storedProduct 0 0 (pds ! i)))"
        "key \<in> set (skuKeys (storedProduct 0 0 (pds ! j)))" by blast
    from ij have "pds ! i \<in> set (take j pds)"
      by (metis in_set_conv_nth length_take less_trans min_less_iff_conj nth_take)
    from insertOrdered_Inr_taken [OF first this key(1)] have taken: "keyTaken d0 key" .
    have "skuKeys (storedProduct now (nextId d0) (pds ! j)) = skuKeys (storedProduct 0 0 (pds ! j))"
      unfolding skuKeys_stored ..
    with key(2) taken have "insertOne now (pds ! j) d0 = Inl DuplicateKeyError"
      by (auto simp add: insertOne_def Let_def list_ex_iff)
    from insertOrdered_stops [OF first this, of "drop (Suc j) pds"] ij(2)
    have "insertOrdered now pds d = (Inl DuplicateKeyError, d0)"
      by (simp add: id_take_nth_drop [symmetric])
    with insertOrdered_Inr_docs [OF first] ij(2) show ?thesis
      by (simp add: all)
  qed
  from general prefix
  show "fst (insertMany now pds d) = Inl DuplicateKeyError
          \<and> (\<exists>k\<le>j. \<exists>ps. length ps = k
                \<and> insertMany now (take k pds) d = (Inr ps, snd (insertMany now pds d))
                \<and> docs (snd (insertMany now pds d)) = docs d @ ps
                \<and> fst (insertMany now (take (Suc k) pds) d) = Inl DuplicateKeyError)
          \<and> (\<forall>ps0 d0. insertMany now (take j pds) d = (Inr ps0, d0)
                \<longrightarrow> insertMany now pds d = (Inl DuplicateKeyError, d0)
                    \<and> docs d0 = docs d @ ps0 \<and> length ps0 = j)"
    by blast
qed

text \<open>
  The batch with the reused SKU: the iPhone alone can be inserted, so it is stored and
  the batch fails at the second record. And a batch whose only record has a negative
  base price.
\<close>

theorem insertMany_batch_witness:
  "insertMany 0 [iPhone, cookwareClash] emptyDb
     = (Inl DuplicateKeyError, snd (insertMany 0 [iPhone] emptyDb))
   \<and> length (docs (snd (insertMany 0 [iPhone] emptyDb))) = 1
   \<and> snd (insertMany 0 [gatsbyNegativePrice] emptyDb) = emptyDb"
proof -
  let ?pds = "[iPhone, cookwareClash]"
  let ?d0 = "snd (insertMany 0 [iPhone] emptyDb)"
  have h1: "\<forall>pd\<in>set ?pds. validateProduct pd = []" by code_simp
  have h2: "(0::nat) < 1 \<and> 1 < length ?pds" by simp
  have h3: "hd (in_variants iPhone) \<in> set (in_variants (?pds ! 0))
      \<and> hd (in_variants cookwareClash) \<in> set (in_variants (?pds ! 1))" by code_simp
  have h4: "map_option trim (in_sku (hd (in_variants iPhone)))
      = map_option trim (in_sku (hd (in_variants cookwareClash)))" by code_simp
  have h5: "\<exists>pd\<in>set [gatsbyNegativePrice]. validateProduct pd \<noteq> []" by code_simp
  have h6: "insertMany 0 (take 1 ?pds) emptyDb = (Inr (docs ?d0), ?d0)" by code_simp
  have l: "length (docs ?d0) = 1" by code_simp
  from insertMany_batch [of ?pds 0 emptyDb 0 1 "hd (in_variants iPhone)"
      "hd (in_variants cookwareClash)"] h1 h2 h3 h4 h6
  have a: "insertMany 0 ?pds emptyDb = (Inl DuplicateKeyError, ?d0)" by blast
  from insertMany_batch [of "[gatsbyNegativePrice]" 0 emptyDb] h5
  have b: "snd (insertMany 0 [gatsbyNegativePrice] emptyDb) = emptyDb" by blast
  from a b l show ?thesis by (intro conjI)
qed

end
